theory Spec2Isabelle
  imports Complex_Main
begin

section \<open>Strings of the page script\<close>

text \<open>
  The page script \<^verbatim>\<open>pages/index.js\<close> (and its copy \<^verbatim>\<open>frontend/pages/index.js\<close>,
  whose \<^verbatim>\<open>findFaculty\<close> is identical line by line) works on JavaScript strings. A string
  is modelled as a \<^typ>\<open>string\<close>, a list of 8-bit characters read as the code units
  U+0000 .. U+00FF; on that range every built-in used below acts on single code units.

  \<^item> \<^verbatim>\<open>\s\<close> and \<^verbatim>\<open>trim()\<close> recognise TAB, LF, VT, FF, CR, SPACE and NBSP;
  \<^item> \<^verbatim>\<open>toLowerCase()\<close> maps A..Z and the capital letters U+00C0 .. U+00DE (without the
    multiplication sign U+00D7) to the code unit 32 above, and fixes everything else.
\<close>

definition is_space :: "char \<Rightarrow> bool" where
  "is_space c = (of_char c \<in> {9, 10, 11, 12, 13, 32, 160 :: nat})"

definition is_az :: "char \<Rightarrow> bool" where
  "is_az c = (97 \<le> (of_char c :: nat) \<and> (of_char c :: nat) \<le> 122)"

definition lower_char :: "char \<Rightarrow> char" where
  "lower_char c =
     (let n = of_char c :: nat
      in if (65 \<le> n \<and> n \<le> 90) \<or> (192 \<le> n \<and> n \<le> 222 \<and> n \<noteq> 215)
         then char_of (n + 32) else c)"

definition toLowerCase :: "string \<Rightarrow> string" where
  "toLowerCase s = map lower_char s"

text \<open>\<^verbatim>\<open>s.startsWith(p)\<close> and \<^verbatim>\<open>s.includes(p)\<close>.\<close>

fun startsWith :: "string \<Rightarrow> string \<Rightarrow> bool" where
  "startsWith s [] = True"
| "startsWith [] (p # ps) = False"
| "startsWith (c # cs) (p # ps) = (c = p \<and> startsWith cs ps)"

fun includes_js :: "string \<Rightarrow> string \<Rightarrow> bool" where
  "includes_js [] p = (p = [])"
| "includes_js (c # cs) p = (startsWith (c # cs) p \<or> includes_js cs p)"

text \<open>\<^verbatim>\<open>s.trim()\<close>: white space is dropped at both ends.\<close>

definition trim :: "string \<Rightarrow> string" where
  "trim s = rev (dropWhile is_space (rev (dropWhile is_space s)))"

text \<open>
  \<^verbatim>\<open>s.split(/\s+/)\<close>: the pieces between maximal runs of white space. A run at the start
  or at the end leaves an empty piece there, and the empty string gives one empty piece.
\<close>

fun split_ws :: "string \<Rightarrow> string list" where
  "split_ws [] = [[]]"
| "split_ws (c # cs) =
     (if is_space c
      then (if cs \<noteq> [] \<and> is_space (hd cs) then split_ws cs else [] # split_ws cs)
      else (case split_ws cs of [] \<Rightarrow> [[c]] | t # ts \<Rightarrow> (c # t) # ts))"

section \<open>Identity resolver: \<^verbatim>\<open>findFaculty\<close>\<close>

subsection \<open>The \<^verbatim>\<open>normalize\<close> helper\<close>

text \<open>
  \<^verbatim>\<open>
  const normalize = (n) => n.toLowerCase()
      .replace(/^(dr|mr|ms|mrs|syed|s)\.?(\s+|$)/, '')
      .replace(/[^a-z\s]/g, ' ')
      .replace(/\s+/g, ' ')
      .trim();
  \<close>
  The first regular expression is anchored and has no \<^verbatim>\<open>g\<close> flag: it removes at most one
  title. Its alternatives are tried in the order written. After the title an optional
  period is taken when present; then either the input ends or at least one white space
  follows, and the whole run of white space belongs to the match. \<open>match_title t s\<close> is
  what is left of \<open>s\<close> when the alternative \<open>t\<close> matches.
\<close>

definition titles :: "string list" where
  "titles = [''dr'', ''mr'', ''ms'', ''mrs'', ''syed'', ''s'']"

definition match_title :: "string \<Rightarrow> string \<Rightarrow> string option" where
  "match_title t s =
     (if startsWith s t
      then (let r = drop (length t) s;
                r' = (case r of [] \<Rightarrow> r | c # q \<Rightarrow> if c = CHR ''.'' then q else r)
            in if r' = [] then Some []
               else if is_space (hd r') then Some (dropWhile is_space r')
               else None)
      else None)"

fun remove_title :: "string list \<Rightarrow> string \<Rightarrow> string" where
  "remove_title [] s = s"
| "remove_title (t # ts) s =
     (case match_title t s of Some r \<Rightarrow> r | None \<Rightarrow> remove_title ts s)"

text \<open>\<^verbatim>\<open>.replace(/[^a-z\s]/g, ' ')\<close>\<close>

definition blank_non_alpha :: "string \<Rightarrow> string" where
  "blank_non_alpha s = map (\<lambda>c. if is_az c \<or> is_space c then c else CHR '' '') s"

text \<open>\<^verbatim>\<open>.replace(/\s+/g, ' ')\<close>: every maximal run of white space becomes one space.\<close>

function collapse_ws :: "string \<Rightarrow> string" where
  "collapse_ws [] = []"
| "collapse_ws (c # cs) =
     (if is_space c then CHR '' '' # collapse_ws (dropWhile is_space cs)
      else c # collapse_ws cs)"
  by pat_completeness auto
termination
  by (relation "measure length") (auto simp: le_imp_less_Suc length_dropWhile_le)

definition normalize_name :: "string \<Rightarrow> string" where
  "normalize_name n = trim (collapse_ws (blank_non_alpha (remove_title titles (toLowerCase n))))"

subsection \<open>Directory records and metadata\<close>

text \<open>
  A directory record as the resolver reads it; the placeholder the resolver builds has
  exactly these fields. Records loaded from the backend carry no \<^verbatim>\<open>isPlaceholder\<close>
  property, which the page reads as false.
\<close>

record faculty_record =
  name :: string
  designation :: string
  department :: string
  email :: string
  phone :: string
  photo_url :: string
  isPlaceholder :: bool

record directory_metadata =
  teachers :: "string list"
  venues :: "string list"
  room_aliases :: "(string \<times> string) list"

subsection \<open>The arithmetic of the threshold\<close>

text \<open>
  \<^verbatim>\<open>matchedCount / nameParts.length >= 0.7\<close> is evaluated in IEEE-754 binary64. A positive
  quotient \<open>a / b\<close> is rounded to the nearest number \<open>m / 2 ^ k\<close> with a 53-bit
  significand \<open>2 ^ 52 \<le> m\<close>, ties to the even \<open>m\<close>; \<open>scale_up\<close> finds \<open>k\<close>. The division is
  only reached with \<open>2 \<le> a \<le> b\<close>, so the quotient is at most 1 and no scaling down is
  needed. The literal \<^verbatim>\<open>0.7\<close> is the binary64 number nearest to 7/10.
\<close>

function scale_up :: "nat \<Rightarrow> nat \<Rightarrow> nat \<Rightarrow> nat \<times> nat" where
  "scale_up a b k =
     (if a = 0 \<or> 2 ^ 52 * b \<le> a then (a, k) else scale_up (2 * a) b (k + 1))"
  by pat_completeness auto
termination
  by (relation "measure (\<lambda>(a, b, k). 2 ^ 52 * b - a)") auto

declare scale_up.simps [simp del]

definition round_half_even :: "nat \<Rightarrow> nat \<Rightarrow> nat" where
  "round_half_even a b =
     (let q = a div b; r = a mod b
      in if 2 * r < b then q
         else if b < 2 * r then q + 1
         else if even q then q else q + 1)"

definition double_div :: "nat \<Rightarrow> nat \<Rightarrow> rat" where
  "double_div a b =
     (case scale_up a b 0 of (a', k) \<Rightarrow> of_nat (round_half_even a' b) / 2 ^ k)"

definition double_0_7 :: rat where
  "double_0_7 = double_div 7 10"

subsection \<open>The lookup\<close>

text \<open>
  \<^verbatim>\<open>
  const isPartMatch = p.length === 1
      ? fnParts.some(fnp => fnp.startsWith(p))
      : fnParts.some(fnp => fnp === p) || fn.includes(p);
  if (isPartMatch) matchedCount++;
  \<close>
\<close>

definition isPartMatch :: "string \<Rightarrow> string list \<Rightarrow> string \<Rightarrow> bool" where
  "isPartMatch fn fnParts p =
     (if length p = 1 then list_ex (\<lambda>fnp. startsWith fnp p) fnParts
      else list_ex (\<lambda>fnp. fnp = p) fnParts \<or> includes_js fn p)"

definition matchedCount :: "string list \<Rightarrow> faculty_record \<Rightarrow> nat" where
  "matchedCount nameParts f =
     (let fn = normalize_name (name f); fnParts = split_ws fn
      in length (filter (isPartMatch fn fnParts) nameParts))"

text \<open>
  The callback of the second \<^verbatim>\<open>faculty.find\<close> (the multi-word match):
  \<^verbatim>\<open>
  if (matchedCount === nameParts.length) return true;
  if (matchedCount >= 2 && matchedCount / nameParts.length >= 0.7) return true;
  return false;
  \<close>
\<close>

definition multiWordMatch :: "string list \<Rightarrow> faculty_record \<Rightarrow> bool" where
  "multiWordMatch nameParts f =
     (let mc = matchedCount nameParts f
      in if mc = length nameParts then True
         else if 2 \<le> mc \<and> double_0_7 \<le> double_div mc (length nameParts) then True
         else False)"

definition nameParts_of :: "string \<Rightarrow> string list" where
  "nameParts_of lower = filter (\<lambda>p. 1 \<le> length p) (split_ws lower)"

definition placeholder :: "string \<Rightarrow> bool \<Rightarrow> faculty_record" where
  "placeholder teacherName isKnown =
     \<lparr>name = teacherName,
      designation = (if isKnown then ''Faculty'' else ''Instructor''),
      department = ''University Faculty'',
      email = [], phone = [], photo_url = [],
      isPlaceholder = True\<rparr>"

text \<open>
  \<^verbatim>\<open>findFaculty\<close> reads the page state \<^verbatim>\<open>faculty\<close> and \<^verbatim>\<open>metadata\<close>; they are arguments
  here. \<open>None\<close> is the \<^verbatim>\<open>null\<close> of the two early returns. \<^verbatim>\<open>Array.prototype.find\<close> gives the
  first element, in array order, for which the callback holds.
\<close>

definition findFaculty ::
  "faculty_record list \<Rightarrow> directory_metadata \<Rightarrow> string \<Rightarrow> faculty_record option" where
  "findFaculty faculty metadata teacherName =
     (if teacherName = [] then None
      else let lower = normalize_name teacherName
      in if lower = [] then None
      else let nameParts = nameParts_of lower
      in case find (\<lambda>f. normalize_name (name f) = lower) faculty of
           Some m \<Rightarrow> Some m
         | None \<Rightarrow>
      (case find (multiWordMatch nameParts) faculty of
           Some m \<Rightarrow> Some m
         | None \<Rightarrow>
      (case (if 4 < length lower
             then find (\<lambda>f. includes_js (normalize_name (name f)) lower) faculty else None) of
           Some m \<Rightarrow> Some m
         | None \<Rightarrow>
      Some (placeholder teacherName
              (list_ex (\<lambda>t. normalize_name t = lower) (teachers metadata))))))"

section \<open>The page's requests and its state\<close>

subsection \<open>What a request can come to\<close>

text \<open>
  \<^verbatim>\<open>await fetch(...)\<close> either rejects (the request never got a response; the error carries
  a message) or gives a response with a status code. \<^verbatim>\<open>res.ok\<close> holds for the status codes
  200 .. 299. \<^verbatim>\<open>await res.json()\<close> gives the parsed body (\<open>Inr\<close>) or rejects with the
  parser's message when the body is not JSON (\<open>Inl\<close>). The network is not part of the
  page: what each request comes to is an input of the model.
\<close>

datatype 'a fetched = Rejected string | Response nat "string + 'a"

definition ok :: "nat \<Rightarrow> bool" where
  "ok status = (200 \<le> status \<and> status \<le> 299)"

subsection \<open>Resilient loader: \<^verbatim>\<open>fetchWithRetry\<close>\<close>

text \<open>
  \<^verbatim>\<open>
  const fetchWithRetry = async (url, options = {}, retries = 3, backoff = 1000) => {
      try {
          const res = await fetch(url, options);
          if (!res.ok) throw new Error(`Status ${res.status}`);
          return await res.json();
      } catch (err) {
          if (retries > 0) {
              await new Promise(r => setTimeout(r, backoff));
              return fetchWithRetry(url, options, retries - 1, backoff * 1.5);
          }
          throw err;
      }
  };
  \<close>
  The three things the \<^verbatim>\<open>try\<close> block can throw are the three errors below; \<open>BadStatus n\<close>
  is the \<^verbatim>\<open>Error\<close> with the message \<^verbatim>\<open>Status n\<close>. \<open>attempt\<close> is the \<^verbatim>\<open>try\<close> block on what
  the request came to.
\<close>

datatype load_error = FetchRejected string | BadStatus nat | BodyRejected string

fun attempt :: "'a fetched \<Rightarrow> load_error + 'a" where
  "attempt (Rejected m) = Inl (FetchRejected m)"
| "attempt (Response status body) =
     (if \<not> ok status then Inl (BadStatus status)
      else case body of Inl m \<Rightarrow> Inl (BodyRejected m) | Inr data \<Rightarrow> Inr data)"

text \<open>
  What a call does, in order: \<open>Fetch\<close> is one request, \<open>Sleep b\<close> the timer of \<open>b\<close>
  milliseconds that is awaited before the recursive call. \<open>net n\<close> is what request
  number \<open>n\<close> comes to, and \<open>n\<close> counts the requests already made. The delay is a
  rational; from 1000 the products by 1.5 that three retries can reach (1500, 2250,
  3375) are exact in binary64 as well.
\<close>

datatype loader_event = Fetch | Sleep rat

fun fetchWithRetry ::
  "(nat \<Rightarrow> 'a fetched) \<Rightarrow> nat \<Rightarrow> nat \<Rightarrow> rat \<Rightarrow> (load_error + 'a) \<times> loader_event list" where
  "fetchWithRetry net n retries backoff =
     (case attempt (net n) of
        Inr data \<Rightarrow> (Inr data, [Fetch])
      | Inl err \<Rightarrow>
          if 0 < retries
          then (case fetchWithRetry net (Suc n) (retries - 1) (backoff * 1.5) of
                  (result, events) \<Rightarrow> (result, Fetch # Sleep backoff # events))
          else (Inl err, [Fetch]))"

declare fetchWithRetry.simps [simp del]

text \<open>\<^verbatim>\<open>fetchWithRetry(`${API_BASE_URL}/bootstrap`)\<close>: the only call, with the defaults.\<close>

definition fetchBootstrap :: "(nat \<Rightarrow> 'a fetched) \<Rightarrow> (load_error + 'a) \<times> loader_event list" where
  "fetchBootstrap net = fetchWithRetry net 0 3 1000"

subsection \<open>Parsed JSON\<close>

text \<open>
  The values \<^verbatim>\<open>JSON.parse\<close> produces. \<open>truthy\<close> is the test of \<^verbatim>\<open>if (v)\<close>; \<open>property v k\<close>
  is the read \<^verbatim>\<open>v.k\<close>: it throws a \<^verbatim>\<open>TypeError\<close> on \<^verbatim>\<open>null\<close> (\<open>Inl\<close>), gives the property of
  an object, and \<^verbatim>\<open>undefined\<close> (\<open>None\<close>) otherwise.
\<close>

datatype json =
  JNull | JBool bool | JNumber rat | JString string | JArray "json list"
| JObject "(string \<times> json) list"

fun truthy :: "json \<Rightarrow> bool" where
  "truthy JNull = False"
| "truthy (JBool b) = b"
| "truthy (JNumber r) = (r \<noteq> 0)"
| "truthy (JString s) = (s \<noteq> [])"
| "truthy (JArray vs) = True"
| "truthy (JObject kvs) = True"

fun property :: "json \<Rightarrow> string \<Rightarrow> string + json option" where
  "property JNull k = Inl ''TypeError''"
| "property (JObject kvs) k = Inr (map_of kvs k)"
| "property v k = Inr None"

subsection \<open>Result cache: the first lines of the mount effect\<close>

text \<open>
  The state of the page that the cache code touches: the item \<^verbatim>\<open>timetable_cache\<close> of
  \<^verbatim>\<open>localStorage\<close> (\<open>None\<close> when there is no such item), and the React state \<^verbatim>\<open>schedule\<close>
  (initially \<^verbatim>\<open>null\<close>), \<^verbatim>\<open>rollNumber\<close> and \<^verbatim>\<open>error\<close> (initially empty strings).
\<close>

record page =
  cache_item :: "string option"
  schedule :: json
  rollNumber :: json
  error :: string

definition initial_page :: "string option \<Rightarrow> page" where
  "initial_page item =
     \<lparr>cache_item = item, schedule = JNull, rollNumber = JString [], error = []\<rparr>"

text \<open>
  \<^verbatim>\<open>
  const cached = localStorage.getItem('timetable_cache');
  if (cached) {
      try {
          const data = JSON.parse(cached);
          setSchedule(data);
          if (data.roll_number) setRollNumber(data.roll_number);
      } catch (e) { localStorage.removeItem('timetable_cache'); }
  }
  \<close>
  \<^verbatim>\<open>JSON.parse\<close> belongs to the runtime and is an argument of the model: \<open>parse text\<close> is
  \<open>None\<close> when \<^verbatim>\<open>JSON.parse(text)\<close> throws. The \<^verbatim>\<open>catch\<close> also takes the \<^verbatim>\<open>TypeError\<close> of
  reading \<^verbatim>\<open>roll_number\<close> from \<^verbatim>\<open>null\<close>.
\<close>

definition load_cached_schedule :: "(string \<Rightarrow> json option) \<Rightarrow> page \<Rightarrow> page" where
  "load_cached_schedule parse p =
     (case cache_item p of
        None \<Rightarrow> p
      | Some cached \<Rightarrow>
          if cached = [] then p
          else (case parse cached of
                  None \<Rightarrow> p\<lparr>cache_item := None\<rparr>
                | Some data \<Rightarrow>
                    (let p' = p\<lparr>schedule := data\<rparr>
                     in case property data ''roll_number'' of
                          Inl e \<Rightarrow> p'\<lparr>cache_item := None\<rparr>
                        | Inr None \<Rightarrow> p'
                        | Inr (Some v) \<Rightarrow> if truthy v then p'\<lparr>rollNumber := v\<rparr> else p')))"

subsection \<open>Sync orchestrator: \<^verbatim>\<open>performSync\<close> and \<^verbatim>\<open>handleSync\<close>\<close>

text \<open>
  The bodies of the two endpoints, typed as the backend sends them:
  \<^verbatim>\<open>{authenticated, url?, error?}\<close> from \<^verbatim>\<open>/auth/url\<close> and \<^verbatim>\<open>{detail?}\<close> from \<^verbatim>\<open>/sync\<close>. An absent
  property is \<open>None\<close>; \<open>present\<close> is the truth test of an optional string;
  \<open>interpolate\<close> is what a template literal prints for it.
\<close>

record authData =
  authenticated :: bool
  url :: "string option"
  auth_error :: "string option"

record syncData =
  detail :: "string option"

fun present :: "string option \<Rightarrow> bool" where
  "present None = False"
| "present (Some s) = (s \<noteq> [])"

fun interpolate :: "string option \<Rightarrow> string" where
  "interpolate None = ''undefined''"
| "interpolate (Some s) = s"

text \<open>
  Everything a sync session does that can be seen from outside, in order: the status it
  sets (\<^verbatim>\<open>setSyncStatus\<close>), its requests, the authorization window, the poll timer and
  its ticks, and a rejection that no handler takes.
\<close>

datatype effect =
  SetSyncStatus string
| GetAuthUrl
| PostSync json
| WindowOpen string
| SetInterval nat
| TimerTick
| ClearInterval
| UnhandledRejection string

text \<open>
  \<^verbatim>\<open>
  const performSync = async () => {
      try {
          const res = await fetch(`${API_BASE_URL}/sync`, { method: 'POST', ...,
              body: JSON.stringify(schedule) });
          if (res.status === 401) { setSyncStatus('auth_needed'); return; }
          const data = await res.json();
          if (res.ok) setSyncStatus('success');
          else setSyncStatus(`error:${data.detail}`);
      } catch (err) {
          setSyncStatus(`error:${err.message}`);
      }
  };
  \<close>
\<close>

definition performSync :: "syncData fetched \<Rightarrow> json \<Rightarrow> effect list" where
  "performSync reply sched =
     PostSync sched #
     (case reply of
        Rejected m \<Rightarrow> [SetSyncStatus (''error:'' @ m)]
      | Response status body \<Rightarrow>
          if status = 401 then [SetSyncStatus ''auth_needed'']
          else (case body of
                  Inl m \<Rightarrow> [SetSyncStatus (''error:'' @ m)]
                | Inr data \<Rightarrow>
                    if ok status then [SetSyncStatus ''success'']
                    else [SetSyncStatus (''error:'' @ interpolate (detail data))]))"

text \<open>
  The world of one session: what the two status requests and the submission come to,
  whether \<^verbatim>\<open>window.open\<close> gives a window, and what \<^verbatim>\<open>popup.closed\<close> is when the timer
  ticks for the \<open>k\<close>-th time.
\<close>

record world =
  auth_reply :: "authData fetched"
  popup_opens :: bool
  popup_closed :: "nat \<Rightarrow> bool"
  recheck_reply :: "authData fetched"
  sync_reply :: "syncData fetched"

text \<open>
  The callback of \<^verbatim>\<open>setInterval(..., 1000)\<close> does nothing while the window is open, so the
  timer ticks until the first tick that finds it closed; it ticks for ever when the
  window is never closed, and then the session has no end (\<open>None\<close>).
\<close>

partial_function (option) ticks_until_closed :: "(nat \<Rightarrow> bool) \<Rightarrow> nat \<Rightarrow> nat option" where
  "ticks_until_closed shut k =
     (if shut k then Some k else ticks_until_closed shut (Suc k))"

text \<open>
  The tick that finds the window closed:
  \<^verbatim>\<open>
  clearInterval(timer);
  const checkRes = await fetch(`${API_BASE_URL}/auth/url`);
  const checkData = await checkRes.json();
  if (checkData.authenticated) { setSyncStatus('syncing'); await performSync(); }
  else setSyncStatus('auth_failed');
  \<close>
  The callback has no \<^verbatim>\<open>try\<close>: a rejection of either \<^verbatim>\<open>await\<close> is handled by nobody.
\<close>

definition on_closed :: "world \<Rightarrow> json \<Rightarrow> effect list" where
  "on_closed w sched =
     [ClearInterval, GetAuthUrl] @
     (case recheck_reply w of
        Rejected m \<Rightarrow> [UnhandledRejection m]
      | Response status body \<Rightarrow>
          (case body of
             Inl m \<Rightarrow> [UnhandledRejection m]
           | Inr checkData \<Rightarrow>
               if authenticated checkData
               then SetSyncStatus ''syncing'' # performSync (sync_reply w) sched
               else [SetSyncStatus ''auth_failed'']))"

text \<open>
  \<^verbatim>\<open>
  const handleSync = async () => {
      if (!schedule) return;
      setSyncStatus('syncing');
      try {
          const authRes = await fetch(`${API_BASE_URL}/auth/url`);
          if (!authRes.ok) throw new Error("Failed to check auth status");
          const authData = await authRes.json();
          if (authData.error) throw new Error(authData.error);
          if (!authData.authenticated && authData.url) {
              ...
              const popup = window.open(authData.url, 'Google Auth', ...);
              if (!popup) { setSyncStatus('popup_blocked'); return; }
              const timer = setInterval(async () => { if (popup.closed) { ... } }, 1000);
              return;
          }
          await performSync();
      } catch (err) {
          setSyncStatus(`error:${err.message}`);
      }
  };
  \<close>
  \<open>handleSync w sched\<close> is the whole session, the ticks of the timer included.
\<close>

definition handleSync :: "world \<Rightarrow> json \<Rightarrow> effect list option" where
  "handleSync w sched =
     (if \<not> truthy sched then Some []
      else (case auth_reply w of
        Rejected m \<Rightarrow>
          Some [SetSyncStatus ''syncing'', GetAuthUrl, SetSyncStatus (''error:'' @ m)]
      | Response status body \<Rightarrow>
          if \<not> ok status
          then Some [SetSyncStatus ''syncing'', GetAuthUrl,
                     SetSyncStatus ''error:Failed to check auth status'']
          else (case body of
            Inl m \<Rightarrow>
              Some [SetSyncStatus ''syncing'', GetAuthUrl, SetSyncStatus (''error:'' @ m)]
          | Inr data \<Rightarrow>
              if present (auth_error data)
              then Some [SetSyncStatus ''syncing'', GetAuthUrl,
                         SetSyncStatus (''error:'' @ interpolate (auth_error data))]
              else if \<not> authenticated data \<and> present (url data)
              then (if \<not> popup_opens w
                    then Some [SetSyncStatus ''syncing'', GetAuthUrl,
                               WindowOpen (interpolate (url data)),
                               SetSyncStatus ''popup_blocked'']
                    else (case ticks_until_closed (popup_closed w) 0 of
                            None \<Rightarrow> None
                          | Some k \<Rightarrow>
                              Some ([SetSyncStatus ''syncing'', GetAuthUrl,
                                     WindowOpen (interpolate (url data)), SetInterval 1000] @
                                    replicate (Suc k) TimerTick @ on_closed w sched)))
              else Some ([SetSyncStatus ''syncing'', GetAuthUrl] @
                         performSync (sync_reply w) sched))))"

text \<open>The status the page shows after the effects: the last one set, if any was.\<close>

fun syncStatus_after :: "effect list \<Rightarrow> string \<Rightarrow> string" where
  "syncStatus_after [] s = s"
| "syncStatus_after (SetSyncStatus t # es) s = syncStatus_after es t"
| "syncStatus_after (e # es) s = syncStatus_after es s"

subsection \<open>The shape of a normalized name\<close>

text \<open>
  Used in the proofs only: a string without two adjacent white spaces, and the strings
  that \<open>normalize_name\<close> produces: lower-case letters and single spaces, no space at
  either end.
\<close>

fun single_spaced :: "string \<Rightarrow> bool" where
  "single_spaced (c # d # cs) = (\<not> (is_space c \<and> is_space d) \<and> single_spaced (d # cs))"
| "single_spaced cs = True"

definition normal_form :: "string \<Rightarrow> bool" where
  "normal_form s =
     ((\<forall>c \<in> set s. is_az c \<or> c = CHR '' '') \<and> single_spaced s \<and>
      (s \<noteq> [] \<longrightarrow> \<not> is_space (hd s) \<and> \<not> is_space (last s)))"

subsection \<open>Sample data\<close>

text \<open>
  A directory record that has only a name of interest, and the value of \<^verbatim>\<open>metadata\<close>
  before the bootstrap data arrives (\<^verbatim>\<open>useState({ teachers: [], venues: [], room_aliases: {} })\<close>).
\<close>

definition directory_entry :: "string \<Rightarrow> faculty_record" where
  "directory_entry n =
     \<lparr>name = n, designation = ''Professor'', department = ''Computer Science'',
      email = [], phone = [], photo_url = [], isPlaceholder = False\<rparr>"

definition initial_metadata :: directory_metadata where
  "initial_metadata = \<lparr>teachers = [], venues = [], room_aliases = []\<rparr>"

text \<open>
  A bootstrap payload, a network that answers the third request, and one that never
  gives a usable answer: three refused connections, then a 503 page.
\<close>

definition bootstrap_payload :: json where
  "bootstrap_payload = JObject [(''faculty'', JArray []), (''academic_plan'', JArray [])]"

definition recovering_network :: "nat \<Rightarrow> json fetched" where
  "recovering_network n =
     (if n < 2 then Rejected ''Failed to fetch'' else Response 200 (Inr bootstrap_payload))"

definition unavailable_network :: "nat \<Rightarrow> json fetched" where
  "unavailable_network n =
     (if n < 3 then Rejected ''Failed to fetch'' else Response 503 (Inl ''Unexpected token <''))"

text \<open>
  A schedule; a parser that agrees with \<^verbatim>\<open>JSON.parse\<close> on the three literal texts and on
  every text that is not JSON, which it rejects; the answer of \<^verbatim>\<open>/auth/url\<close> for a user who
  has not yet consented; and three worlds for a sync session.
\<close>

definition sample_schedule :: json where
  "sample_schedule =
     JObject [(''roll_number'', JString ''24P-0529''), (''weekly_schedule'', JArray []),
              (''exam_schedule'', JArray [])]"

definition literal_parse :: "string \<Rightarrow> json option" where
  "literal_parse text =
     (if text = ''null'' then Some JNull
      else if text = ''true'' then Some (JBool True)
      else if text = ''false'' then Some (JBool False)
      else None)"

definition needs_consent :: authData where
  "needs_consent =
     \<lparr>authenticated = False, url = Some ''https://accounts.google.com/o/oauth2/auth'',
      auth_error = None\<rparr>"

definition blocked_world :: world where
  "blocked_world =
     \<lparr>auth_reply = Response 200 (Inr needs_consent), popup_opens = False,
      popup_closed = (\<lambda>k. False), recheck_reply = Rejected ''Failed to fetch'',
      sync_reply = Rejected ''Failed to fetch''\<rparr>"

definition offline_after_consent :: world where
  "offline_after_consent =
     \<lparr>auth_reply = Response 200 (Inr needs_consent), popup_opens = True,
      popup_closed = (\<lambda>k. 2 \<le> k), recheck_reply = Rejected ''Failed to fetch'',
      sync_reply = Response 200 (Inr \<lparr>detail = None\<rparr>)\<rparr>"

definition no_url_world :: world where
  "no_url_world =
     \<lparr>auth_reply = Response 200 (Inr \<lparr>authenticated = False, url = None, auth_error = None\<rparr>),
      popup_opens = True, popup_closed = (\<lambda>k. True),
      recheck_reply = Rejected ''Failed to fetch'',
      sync_reply = Response 401 (Inr \<lparr>detail = Some ''Not authenticated''\<rparr>)\<rparr>"

section \<open>Properties of the identity resolver\<close>

subsection \<open>The threshold in binary64\<close>

lemma double_0_7_val: "double_0_7 = 6305039478318694 / 2 ^ 53"
  by (simp add: double_0_7_def double_div_def round_half_even_def scale_up.simps)

lemma double_two_thirds: "double_div 2 3 < double_0_7"
  by (simp add: double_0_7_val double_div_def round_half_even_def scale_up.simps)

lemma double_three_quarters: "double_0_7 \<le> double_div 3 4"
  by (simp add: double_0_7_val double_div_def round_half_even_def scale_up.simps)

text \<open>
  C4. Threshold boundary: when the query has three tokens and exactly two of them match
  the record, the multi-word match rejects the record (the binary64 quotient 2/3 is below
  the binary64 literal 0.7); when the query has four tokens and exactly three match, it
  accepts the record (3/4 is not below 0.7).
\<close>

theorem threshold_boundary:
  "(length nameParts = 3 \<and> matchedCount nameParts f = 2 \<longrightarrow> \<not> multiWordMatch nameParts f) \<and>
   (length nameParts = 4 \<and> matchedCount nameParts f = 3 \<longrightarrow> multiWordMatch nameParts f)"
  using double_two_thirds double_three_quarters
  by (simp add: multiWordMatch_def Let_def)

text \<open>
  The queries \<open>Ali Ahmed Khan\<close> and \<open>Ali Ahmed Raza Khan\<close> against the record
  \<open>Ali Raza Khan\<close>: two of three tokens, then three of four.
\<close>

theorem threshold_boundary_witness:
  "length (nameParts_of (normalize_name ''Ali Ahmed Khan'')) = 3 \<and>
   matchedCount (nameParts_of (normalize_name ''Ali Ahmed Khan''))
     (directory_entry ''Ali Raza Khan'') = 2 \<and>
   \<not> multiWordMatch (nameParts_of (normalize_name ''Ali Ahmed Khan''))
     (directory_entry ''Ali Raza Khan'') \<and>
   length (nameParts_of (normalize_name ''Ali Ahmed Raza Khan'')) = 4 \<and>
   matchedCount (nameParts_of (normalize_name ''Ali Ahmed Raza Khan''))
     (directory_entry ''Ali Raza Khan'') = 3 \<and>
   multiWordMatch (nameParts_of (normalize_name ''Ali Ahmed Raza Khan''))
     (directory_entry ''Ali Raza Khan'')"
proof -
  have a: "length (nameParts_of (normalize_name ''Ali Ahmed Khan'')) = 3"
    by code_simp
  have b: "matchedCount (nameParts_of (normalize_name ''Ali Ahmed Khan''))
             (directory_entry ''Ali Raza Khan'') = 2"
    by code_simp
  have c: "length (nameParts_of (normalize_name ''Ali Ahmed Raza Khan'')) = 4"
    by code_simp
  have d: "matchedCount (nameParts_of (normalize_name ''Ali Ahmed Raza Khan''))
             (directory_entry ''Ali Raza Khan'') = 3"
    by code_simp
  from a b c d
    threshold_boundary [of "nameParts_of (normalize_name ''Ali Ahmed Khan'')"
      "directory_entry ''Ali Raza Khan''"]
    threshold_boundary [of "nameParts_of (normalize_name ''Ali Ahmed Raza Khan'')"
      "directory_entry ''Ali Raza Khan''"]
  show ?thesis by blast
qed

subsection \<open>What the lookup returns\<close>

lemma normalize_name_Nil: "normalize_name [] = []"
  by code_simp

lemma find_first_index:
  assumes "i < length xs" "P (xs ! i)" "\<forall>k<i. \<not> P (xs ! k)"
  shows "find P xs = Some (xs ! i)"
  using assms by (auto simp: find_Some_iff)

lemma find_Some_mem: "find P xs = Some x \<Longrightarrow> x \<in> set xs"
  by (auto simp: find_Some_iff)

text \<open>
  C1, as the code has it. The lookup is a total function of an input string: it raises
  nothing. It gives no result (\<^verbatim>\<open>null\<close>) exactly when the input normalizes to the empty
  string, which includes the empty input; every result it gives is a record of the
  directory or the placeholder built from the raw input.
\<close>

theorem findFaculty_result:
  "(findFaculty faculty metadata t = None \<longleftrightarrow> normalize_name t = []) \<and>
   (\<forall>r. findFaculty faculty metadata t = Some r \<longrightarrow>
      r \<in> set faculty \<or>
      r = placeholder t (list_ex (\<lambda>k. normalize_name k = normalize_name t) (teachers metadata)))"
proof (cases "normalize_name t = []")
  case True
  then show ?thesis
    by (simp add: findFaculty_def Let_def)
next
  case False
  then have t: "t \<noteq> []"
    using normalize_name_Nil by auto
  show ?thesis
    using False t
    by (simp add: findFaculty_def Let_def find_Some_mem split: option.split)
qed

text \<open>
  An exact match after normalization, an unknown name, and an input without any letter.
\<close>

theorem findFaculty_result_witness:
  "findFaculty [directory_entry ''Ayesha Khan''] initial_metadata ''Dr. Ayesha Khan5''
     = Some (directory_entry ''Ayesha Khan'') \<and>
   normalize_name ''Dr. Ayesha Khan5'' \<noteq> [] \<and>
   findFaculty [directory_entry ''Ayesha Khan''] initial_metadata ''Zed Q''
     = Some (placeholder ''Zed Q'' False) \<and>
   normalize_name ''Zed Q'' \<noteq> [] \<and>
   findFaculty [directory_entry ''Ayesha Khan''] initial_metadata ''42'' = None \<and>
   normalize_name ''42'' = []"
proof -
  have a: "findFaculty [directory_entry ''Ayesha Khan''] initial_metadata ''Dr. Ayesha Khan5''
             = Some (directory_entry ''Ayesha Khan'')"
    by code_simp
  have b: "findFaculty [directory_entry ''Ayesha Khan''] initial_metadata ''Zed Q''
             = Some (placeholder ''Zed Q'' False)"
    by code_simp
  have c: "normalize_name ''42'' = []"
    by code_simp
  from a b c
    findFaculty_result [of "[directory_entry ''Ayesha Khan'']" initial_metadata "''Dr. Ayesha Khan5''"]
    findFaculty_result [of "[directory_entry ''Ayesha Khan'']" initial_metadata "''Zed Q''"]
    findFaculty_result [of "[directory_entry ''Ayesha Khan'']" initial_metadata "''42''"]
  show ?thesis by simp
qed

text \<open>
  C1 as stated fails: the input \<open>Dr.\<close> is a title and nothing else, it normalizes to the
  empty string, and the lookup returns \<^verbatim>\<open>null\<close>: neither a record nor a placeholder.
\<close>

theorem findFaculty_none_counterexample:
  "findFaculty [directory_entry ''Ayesha Khan''] initial_metadata ''Dr.'' = None"
  by code_simp

lemma find_earlier:
  assumes "i < length xs" and "P (xs ! i)"
  shows "\<exists>k\<le>i. find P xs = Some (xs ! k) \<and> P (xs ! k) \<and> (\<forall>m<k. \<not> P (xs ! m))"
proof -
  define k where "k = (LEAST m. P (xs ! m))"
  have pk: "P (xs ! k)"
    unfolding k_def using assms(2) by (rule LeastI)
  have le: "k \<le> i"
    unfolding k_def using assms(2) by (rule Least_le)
  have first: "\<forall>m<k. \<not> P (xs ! m)"
    unfolding k_def using not_less_Least by blast
  have "find P xs = Some (xs ! k)"
    using le assms(1) pk first by (intro find_first_index) auto
  with le pk first show ?thesis by blast
qed

text \<open>
  C3, as the code has it. First-match policy. The query normalizes to a non-empty string
  and no record of the whole directory is an exact match, so the multi-word pass decides.
  When two records, at positions \<open>i < j\<close>, both pass it, the lookup returns the first
  record of the directory that passes, which stands at \<open>i\<close> or before it; it is the
  record at \<open>i\<close> when no record before \<open>i\<close> passes. The count of matched tokens of the
  later record plays no part.
\<close>

theorem first_match_policy:
  assumes "normalize_name q \<noteq> []"
    and "\<forall>f \<in> set faculty. normalize_name (name f) \<noteq> normalize_name q"
    and "i < j" and "j < length faculty"
    and "multiWordMatch (nameParts_of (normalize_name q)) (faculty ! i)"
    and "multiWordMatch (nameParts_of (normalize_name q)) (faculty ! j)"
  shows "(\<exists>k\<le>i. findFaculty faculty metadata q = Some (faculty ! k) \<and>
            multiWordMatch (nameParts_of (normalize_name q)) (faculty ! k) \<and>
            (\<forall>m<k. \<not> multiWordMatch (nameParts_of (normalize_name q)) (faculty ! m))) \<and>
         ((\<forall>k<i. \<not> multiWordMatch (nameParts_of (normalize_name q)) (faculty ! k)) \<longrightarrow>
            findFaculty faculty metadata q = Some (faculty ! i))"
proof -
  let ?accepts = "multiWordMatch (nameParts_of (normalize_name q))"
  have q: "q \<noteq> []"
    using assms(1) normalize_name_Nil by auto
  have exact: "find (\<lambda>f. normalize_name (name f) = normalize_name q) faculty = None"
    using assms(2) by (simp add: find_None_iff)
  have pass: "findFaculty faculty metadata q = Some r" if "find ?accepts faculty = Some r" for r
    using q assms(1) exact that by (simp add: findFaculty_def Let_def)
  have i: "i < length faculty"
    using assms(3,4) by simp
  obtain k where k: "k \<le> i" "find ?accepts faculty = Some (faculty ! k)" "?accepts (faculty ! k)"
    "\<forall>m<k. \<not> ?accepts (faculty ! m)"
    using find_earlier [of i faculty ?accepts] i assms(5) by blast
  have general: "\<exists>k\<le>i. findFaculty faculty metadata q = Some (faculty ! k) \<and>
      ?accepts (faculty ! k) \<and> (\<forall>m<k. \<not> ?accepts (faculty ! m))"
    using k pass by blast
  have first: "findFaculty faculty metadata q = Some (faculty ! i)"
    if "\<forall>k<i. \<not> ?accepts (faculty ! k)"
    using find_first_index [of i faculty ?accepts] i assms(5) that pass by blast
  from general first show ?thesis by blast
qed

text \<open>
  The record \<open>Ali Raza Khan\<close> matches three of the four tokens of the query, the later
  record \<open>Ali Ahmed Raza Khan Niazi\<close> matches all four, and the earlier one is returned.
\<close>

theorem first_match_policy_witness:
  "matchedCount (nameParts_of (normalize_name ''Ali Ahmed Raza Khan''))
     (directory_entry ''Ali Raza Khan'') = 3 \<and>
   matchedCount (nameParts_of (normalize_name ''Ali Ahmed Raza Khan''))
     (directory_entry ''Ali Ahmed Raza Khan Niazi'') = 4 \<and>
   findFaculty [directory_entry ''Ali Raza Khan'', directory_entry ''Ali Ahmed Raza Khan Niazi'']
     initial_metadata ''Ali Ahmed Raza Khan'' = Some (directory_entry ''Ali Raza Khan'')"
proof -
  let ?q = "''Ali Ahmed Raza Khan''"
  let ?a = "directory_entry ''Ali Raza Khan''"
  let ?b = "directory_entry ''Ali Ahmed Raza Khan Niazi''"
  let ?np = "nameParts_of (normalize_name ?q)"
  have n: "normalize_name ?q \<noteq> []"
    by code_simp
  have ea: "normalize_name (name ?a) \<noteq> normalize_name ?q"
    by code_simp
  have eb: "normalize_name (name ?b) \<noteq> normalize_name ?q"
    by code_simp
  have len: "length ?np = 4"
    by code_simp
  have ca: "matchedCount ?np ?a = 3"
    by code_simp
  have cb: "matchedCount ?np ?b = 4"
    by code_simp
  have ma: "multiWordMatch ?np ([?a, ?b] ! 0)"
    using len ca double_three_quarters by (simp add: multiWordMatch_def)
  have mb: "multiWordMatch ?np ([?a, ?b] ! 1)"
    using len cb by (simp add: multiWordMatch_def)
  have ex: "\<forall>f \<in> set [?a, ?b]. normalize_name (name f) \<noteq> normalize_name ?q"
    using ea eb by simp
  have "findFaculty [?a, ?b] initial_metadata ?q = Some ([?a, ?b] ! 0)"
    using first_match_policy [of ?q "[?a, ?b]" 0 1 initial_metadata, OF n ex _ _ ma mb]
    by simp
  with ca cb show ?thesis by simp
qed

text \<open>
  C3 as stated fails in two ways. For the query \<open>Ali Ahmed Raza Khan\<close> the first two
  records below both pass the multi-word match and neither is an exact match, but the
  third record is one, and the exact pass, which scans the whole directory first, returns
  it. For the query \<open>Ali Khan\<close> all three records of the second directory pass and none
  is an exact match; of the second and the third the lookup returns neither, but the
  first record of the directory.
\<close>

theorem first_match_counterexample:
  "multiWordMatch (nameParts_of (normalize_name ''Ali Ahmed Raza Khan''))
     (directory_entry ''Ali Raza Khan'') \<and>
   multiWordMatch (nameParts_of (normalize_name ''Ali Ahmed Raza Khan''))
     (directory_entry ''Ali Ahmed Raza Khan Niazi'') \<and>
   normalize_name (name (directory_entry ''Ali Raza Khan'')) \<noteq>
     normalize_name ''Ali Ahmed Raza Khan'' \<and>
   normalize_name (name (directory_entry ''Ali Ahmed Raza Khan Niazi'')) \<noteq>
     normalize_name ''Ali Ahmed Raza Khan'' \<and>
   findFaculty
     [directory_entry ''Ali Raza Khan'', directory_entry ''Ali Ahmed Raza Khan Niazi'',
      directory_entry ''Ali Ahmed Raza Khan'']
     initial_metadata ''Ali Ahmed Raza Khan'' = Some (directory_entry ''Ali Ahmed Raza Khan'') \<and>
   directory_entry ''Ali Ahmed Raza Khan'' \<noteq> directory_entry ''Ali Raza Khan'' \<and>
   multiWordMatch (nameParts_of (normalize_name ''Ali Khan''))
     (directory_entry ''Ali Raza Khan'') \<and>
   multiWordMatch (nameParts_of (normalize_name ''Ali Khan''))
     (directory_entry ''Khan Ali Zed'') \<and>
   normalize_name (name (directory_entry ''Ali Raza Khan'')) \<noteq> normalize_name ''Ali Khan'' \<and>
   normalize_name (name (directory_entry ''Khan Ali Zed'')) \<noteq> normalize_name ''Ali Khan'' \<and>
   findFaculty
     [directory_entry ''Ali Khan Niazi'', directory_entry ''Ali Raza Khan'',
      directory_entry ''Khan Ali Zed'']
     initial_metadata ''Ali Khan'' = Some (directory_entry ''Ali Khan Niazi'') \<and>
   directory_entry ''Ali Khan Niazi'' \<noteq> directory_entry ''Ali Raza Khan''"
proof -
  let ?q = "''Ali Ahmed Raza Khan''"
  let ?np = "nameParts_of (normalize_name ?q)"
  let ?a = "directory_entry ''Ali Raza Khan''"
  let ?b = "directory_entry ''Ali Ahmed Raza Khan Niazi''"
  let ?c = "directory_entry ''Ali Ahmed Raza Khan''"
  let ?np' = "nameParts_of (normalize_name ''Ali Khan'')"
  let ?d = "directory_entry ''Ali Khan Niazi''"
  let ?e = "directory_entry ''Khan Ali Zed''"
  have len: "length ?np = 4"
    by code_simp
  have ca: "matchedCount ?np ?a = 3"
    by code_simp
  have cb: "matchedCount ?np ?b = 4"
    by code_simp
  have ma: "multiWordMatch ?np ?a"
    using len ca double_three_quarters by (simp add: multiWordMatch_def)
  have mb: "multiWordMatch ?np ?b"
    using len cb by (simp add: multiWordMatch_def)
  have ea: "normalize_name (name ?a) \<noteq> normalize_name ?q"
    by code_simp
  have eb: "normalize_name (name ?b) \<noteq> normalize_name ?q"
    by code_simp
  have r1: "findFaculty [?a, ?b, ?c] initial_metadata ?q = Some ?c"
    by code_simp
  have n1: "?c \<noteq> ?a"
    by (simp add: directory_entry_def)
  have len': "length ?np' = 2"
    by code_simp
  have ca': "matchedCount ?np' ?a = 2"
    by code_simp
  have ce': "matchedCount ?np' ?e = 2"
    by code_simp
  have ma': "multiWordMatch ?np' ?a"
    using len' ca' by (simp add: multiWordMatch_def)
  have me': "multiWordMatch ?np' ?e"
    using len' ce' by (simp add: multiWordMatch_def)
  have ea': "normalize_name (name ?a) \<noteq> normalize_name ''Ali Khan''"
    by code_simp
  have ee': "normalize_name (name ?e) \<noteq> normalize_name ''Ali Khan''"
    by code_simp
  have r2: "findFaculty [?d, ?a, ?e] initial_metadata ''Ali Khan'' = Some ?d"
    by code_simp
  have n2: "?d \<noteq> ?a"
    by (simp add: directory_entry_def)
  from ma mb ea eb r1 n1 ma' me' ea' ee' r2 n2 show ?thesis
    by (intro conjI)
qed

subsection \<open>Normalizing twice\<close>

lemma is_space_blank: "is_space CHR '' ''"
  by (simp add: is_space_def)

lemma is_az_not_space: "is_az c \<Longrightarrow> \<not> is_space c"
  by (auto simp: is_az_def is_space_def)

lemma lower_char_az: "is_az c \<Longrightarrow> lower_char c = c"
  by (simp add: lower_char_def is_az_def Let_def)

lemma lower_char_blank: "lower_char CHR '' '' = CHR '' ''"
  by (simp add: lower_char_def)

lemma single_spaced_Cons:
  "single_spaced (a # l) = ((l \<noteq> [] \<longrightarrow> \<not> (is_space a \<and> is_space (hd l))) \<and> single_spaced l)"
  by (cases l) auto

lemma single_spaced_tl: "single_spaced (a # l) \<Longrightarrow> single_spaced l"
  by (simp add: single_spaced_Cons)

lemma single_spaced_drop: "single_spaced s \<Longrightarrow> single_spaced (drop n s)"
proof (induction n arbitrary: s)
  case 0
  then show ?case by simp
next
  case (Suc n)
  then show ?case by (cases s) (auto dest: single_spaced_tl)
qed

lemma single_spaced_take: "single_spaced s \<Longrightarrow> single_spaced (take n s)"
proof (induction s arbitrary: n)
  case Nil
  then show ?case by simp
next
  case (Cons a s)
  show ?case
  proof (cases n)
    case 0
    then show ?thesis by simp
  next
    case (Suc m)
    have "single_spaced (take m s)"
      using Cons by (simp add: single_spaced_Cons)
    moreover have "take m s \<noteq> [] \<Longrightarrow> hd (take m s) = hd s \<and> s \<noteq> []"
      by (cases s; cases m) auto
    ultimately show ?thesis
      using Cons.prems Suc by (auto simp: single_spaced_Cons)
  qed
qed

lemma trim_take_drop:
  "trim s = take (length (dropWhile is_space s) - length (takeWhile is_space (rev (dropWhile is_space s))))
              (dropWhile is_space s)"
  by (simp add: trim_def dropWhile_eq_drop [of is_space "rev (dropWhile is_space s)"] rev_drop)

lemma collapse_ws_Nil_iff: "collapse_ws s = [] \<longleftrightarrow> s = []"
  by (cases s) auto

lemma hd_collapse_ws: "hd (collapse_ws (c # cs)) = (if is_space c then CHR '' '' else c)"
  by simp

lemma set_collapse_ws:
  "x \<in> set (collapse_ws s) \<Longrightarrow> (x \<in> set s \<and> \<not> is_space x) \<or> x = CHR '' ''"
  by (induction s rule: collapse_ws.induct) (auto split: if_splits dest: set_dropWhileD)

lemma single_spaced_collapse_ws: "single_spaced (collapse_ws s)"
proof (induction s rule: collapse_ws.induct)
  case 1
  then show ?case by simp
next
  case (2 c cs)
  show ?case
  proof (cases "is_space c")
    case True
    let ?r = "dropWhile is_space cs"
    have "collapse_ws ?r \<noteq> [] \<Longrightarrow> \<not> is_space (hd (collapse_ws ?r))"
    proof -
      assume "collapse_ws ?r \<noteq> []"
      then have ne: "?r \<noteq> []" by (simp add: collapse_ws_Nil_iff)
      then have h: "\<not> is_space (hd ?r)" by (rule hd_dropWhile)
      from ne obtain d ds where r: "?r = d # ds" by (cases ?r) auto
      with h show ?thesis by simp
    qed
    with True 2 show ?thesis by (auto simp: single_spaced_Cons)
  next
    case False
    with 2 show ?thesis by (auto simp: single_spaced_Cons)
  qed
qed

lemma last_dropWhile_ne: "dropWhile P xs \<noteq> [] \<Longrightarrow> last (dropWhile P xs) = last xs"
  by (metis last_appendR takeWhile_dropWhile_id)

lemma trim_ends:
  assumes "trim s \<noteq> []"
  shows "\<not> is_space (hd (trim s)) \<and> \<not> is_space (last (trim s))"
proof -
  let ?t = "dropWhile is_space s"
  let ?v = "dropWhile is_space (rev ?t)"
  have tv: "trim s = rev ?v" by (simp add: trim_def)
  with assms have v: "?v \<noteq> []" by simp
  have "?t = [] \<Longrightarrow> ?v = []" by (auto dest: set_dropWhileD)
  with v have t: "?t \<noteq> []" by blast
  have "last (trim s) = hd ?v" using v by (simp add: tv last_rev)
  moreover have "\<not> is_space (hd ?v)" using v by (rule hd_dropWhile)
  moreover have "hd (trim s) = last ?v" using v by (simp add: tv hd_rev)
  moreover have "last ?v = last (rev ?t)" using v by (rule last_dropWhile_ne)
  moreover have "last (rev ?t) = hd ?t" using t by (simp add: last_rev)
  moreover have "\<not> is_space (hd ?t)" using t by (rule hd_dropWhile)
  ultimately show ?thesis by simp
qed

lemma set_trim: "x \<in> set (trim s) \<Longrightarrow> x \<in> set s"
proof -
  assume "x \<in> set (trim s)"
  then have "x \<in> set (dropWhile is_space (rev (dropWhile is_space s)))"
    by (simp add: trim_def)
  then have "x \<in> set (rev (dropWhile is_space s))"
    by (rule set_dropWhileD)
  then have "x \<in> set (dropWhile is_space s)"
    by simp
  then show "x \<in> set s"
    by (rule set_dropWhileD)
qed

lemma single_spaced_trim: "single_spaced s \<Longrightarrow> single_spaced (trim s)"
  unfolding trim_take_drop
  by (simp add: dropWhile_eq_drop [of is_space s] single_spaced_take single_spaced_drop)

lemma set_blank_non_alpha: "x \<in> set (blank_non_alpha s) \<Longrightarrow> is_az x \<or> is_space x"
  by (auto simp: blank_non_alpha_def is_space_blank split: if_splits)

lemma normal_form_normalize_name: "normal_form (normalize_name x)"
proof -
  let ?w = "blank_non_alpha (remove_title titles (toLowerCase x))"
  let ?u = "collapse_ws ?w"
  have chars: "\<forall>c \<in> set (trim ?u). is_az c \<or> c = CHR '' ''"
    using set_trim set_collapse_ws set_blank_non_alpha by blast
  have "single_spaced (trim ?u)"
    by (rule single_spaced_trim) (rule single_spaced_collapse_ws)
  with chars trim_ends [of ?u] show ?thesis
    by (simp add: normal_form_def normalize_name_def)
qed

lemma toLowerCase_normal_form: "normal_form y \<Longrightarrow> toLowerCase y = y"
  unfolding toLowerCase_def normal_form_def
  by (intro map_idI) (auto simp: lower_char_az lower_char_blank)

lemma blank_non_alpha_id:
  "\<forall>c \<in> set s. is_az c \<or> c = CHR '' '' \<Longrightarrow> blank_non_alpha s = s"
  unfolding blank_non_alpha_def by (intro map_idI) auto

lemma collapse_ws_id:
  "single_spaced s \<Longrightarrow> \<forall>c \<in> set s. is_space c \<longrightarrow> c = CHR '' '' \<Longrightarrow> collapse_ws s = s"
proof (induction s rule: collapse_ws.induct)
  case 1
  then show ?case by simp
next
  case (2 c cs)
  show ?case
  proof (cases "is_space c")
    case True
    then have c: "c = CHR '' ''" using 2 by simp
    have d: "dropWhile is_space cs = cs"
      using "2.prems"(1) True by (cases cs) auto
    have "collapse_ws (dropWhile is_space cs) = dropWhile is_space cs"
      using 2 True d by (simp add: single_spaced_Cons)
    with True c d show ?thesis by simp
  next
    case False
    with 2 show ?thesis by (simp add: single_spaced_Cons)
  qed
qed

lemma trim_id:
  assumes "s \<noteq> [] \<longrightarrow> \<not> is_space (hd s) \<and> \<not> is_space (last s)"
  shows "trim s = s"
proof (cases s)
  case Nil
  then show ?thesis by (simp add: trim_def)
next
  case (Cons a l)
  with assms have a: "\<not> is_space a" and b: "\<not> is_space (last s)" by auto
  have 1: "dropWhile is_space s = s" using Cons a by simp
  obtain d ds where r: "rev s = d # ds"
    using Cons by (cases "rev s") auto
  have "hd (rev s) = last s"
    by (simp add: hd_rev)
  with r have "d = last s" by simp
  with b have "dropWhile is_space (d # ds) = d # ds" by simp
  then have 2: "dropWhile is_space (rev s) = rev s" by (simp only: r)
  show ?thesis by (simp add: trim_def 1 2)
qed

lemma normal_form_fixed:
  assumes "normal_form r"
  shows "trim (collapse_ws (blank_non_alpha r)) = r"
proof -
  have chars: "\<forall>c \<in> set r. is_az c \<or> c = CHR '' ''"
    using assms by (simp add: normal_form_def)
  then have 1: "blank_non_alpha r = r" by (rule blank_non_alpha_id)
  have "\<forall>c \<in> set r. is_space c \<longrightarrow> c = CHR '' ''"
    using chars is_az_not_space by blast
  then have 2: "collapse_ws r = r"
    using assms by (simp add: normal_form_def collapse_ws_id)
  have 3: "trim r = r"
    using assms by (intro trim_id) (simp add: normal_form_def)
  show ?thesis by (simp add: 1 2 3)
qed

lemma normal_form_suffix:
  assumes "normal_form y"
  shows "normal_form (dropWhile is_space (drop k y))"
proof -
  let ?r = "dropWhile is_space (drop k y)"
  have chars: "\<forall>c \<in> set ?r. is_az c \<or> c = CHR '' ''"
    using assms by (auto simp: normal_form_def dest!: set_dropWhileD in_set_dropD)
  have ss: "single_spaced ?r"
    using assms
    by (simp add: normal_form_def dropWhile_eq_drop [of is_space "drop k y"] single_spaced_drop)
  have ends: "?r \<noteq> [] \<longrightarrow> \<not> is_space (hd ?r) \<and> \<not> is_space (last ?r)"
  proof
    assume ne: "?r \<noteq> []"
    then have d: "drop k y \<noteq> []" by auto
    then have y: "y \<noteq> []" by auto
    have "last ?r = last (drop k y)" using ne by (rule last_dropWhile_ne)
    also have "\<dots> = last y" using d by simp
    finally have "\<not> is_space (last ?r)"
      using assms y by (simp add: normal_form_def)
    moreover have "\<not> is_space (hd ?r)" using ne by (rule hd_dropWhile)
    ultimately show "\<not> is_space (hd ?r) \<and> \<not> is_space (last ?r)" by simp
  qed
  show ?thesis
    using chars ss ends by (simp add: normal_form_def)
qed

lemma match_title_suffix:
  assumes "match_title t y = Some r"
  shows "\<exists>k. r = dropWhile is_space (drop k y)"
proof -
  let ?r = "drop (length t) y"
  from assms have "r = [] \<or> r = dropWhile is_space ?r \<or> r = dropWhile is_space (tl ?r)"
    by (auto simp: match_title_def Let_def split: if_splits list.splits)
  moreover have "[] = dropWhile is_space (drop (length y) y)" by simp
  moreover have "tl ?r = drop (Suc (length t)) y" by (simp add: drop_Suc tl_drop)
  ultimately show ?thesis by metis
qed

lemma normal_form_remove_title: "normal_form y \<Longrightarrow> normal_form (remove_title ts y)"
proof (induction ts)
  case Nil
  then show ?case by simp
next
  case (Cons t ts)
  show ?case
  proof (cases "match_title t y")
    case None
    with Cons show ?thesis by simp
  next
    case (Some r)
    then obtain k where "r = dropWhile is_space (drop k y)"
      using match_title_suffix by blast
    with Cons.prems Some show ?thesis by (simp add: normal_form_suffix)
  qed
qed

lemma normalize_name_normal_form:
  assumes "normal_form y"
  shows "normalize_name y = remove_title titles y"
  using assms
  by (simp add: normalize_name_def toLowerCase_normal_form normal_form_fixed
      normal_form_remove_title)

lemma split_ws_ne: "split_ws s \<noteq> []"
  by (induction s) (auto split: list.splits)

lemma hd_split_ws: "hd (split_ws s) = takeWhile (\<lambda>c. \<not> is_space c) s"
proof (induction s)
  case Nil
  then show ?case by simp
next
  case (Cons c cs)
  show ?case
  proof (cases "is_space c")
    case True
    show ?thesis
    proof (cases "cs \<noteq> [] \<and> is_space (hd cs)")
      case True
      then have "takeWhile (\<lambda>c. \<not> is_space c) cs = []"
        by (cases cs) auto
      with True \<open>is_space c\<close> Cons show ?thesis by simp
    next
      case False
      with \<open>is_space c\<close> show ?thesis by auto
    qed
  next
    case False
    with Cons split_ws_ne [of cs] show ?thesis
      by (cases "split_ws cs") auto
  qed
qed

lemma startsWith_iff: "startsWith s p \<longleftrightarrow> take (length p) s = p"
  by (induction s p rule: startsWith.induct) auto

lemma match_title_iff:
  assumes dot: "CHR ''.'' \<notin> set y" and t: "\<forall>c \<in> set t. \<not> is_space c"
  shows "match_title t y \<noteq> None \<longleftrightarrow> takeWhile (\<lambda>c. \<not> is_space c) y = t"
proof
  assume m: "match_title t y \<noteq> None"
  let ?r = "drop (length t) y"
  from m have st: "take (length t) y = t"
    by (auto simp: match_title_def startsWith_iff split: if_splits)
  then have y: "y = t @ ?r"
    by (metis append_take_drop_id)
  have nodot: "?r \<noteq> [] \<Longrightarrow> hd ?r \<noteq> CHR ''.''"
    using dot by (metis hd_in_set in_set_dropD)
  from m st nodot have "?r = [] \<or> is_space (hd ?r)"
    by (cases ?r) (auto simp: match_title_def startsWith_iff Let_def split: if_splits)
  then have "takeWhile (\<lambda>c. \<not> is_space c) ?r = []"
    by (cases ?r) auto
  moreover have "takeWhile (\<lambda>c. \<not> is_space c) (t @ ?r) = t @ takeWhile (\<lambda>c. \<not> is_space c) ?r"
    using t by (intro takeWhile_append2) simp
  ultimately show "takeWhile (\<lambda>c. \<not> is_space c) y = t"
    using y by simp
next
  assume tw: "takeWhile (\<lambda>c. \<not> is_space c) y = t"
  define d where "d = dropWhile (\<lambda>c. \<not> is_space c) y"
  have y: "y = t @ d"
    unfolding d_def using tw by (metis takeWhile_dropWhile_id)
  then have st: "take (length t) y = t" and dr: "drop (length t) y = d"
    by (metis append_eq_conv_conj)+
  have sp: "d \<noteq> [] \<Longrightarrow> is_space (hd d)"
    unfolding d_def using hd_dropWhile [of "\<lambda>c. \<not> is_space c" y] by simp
  have nodot: "d \<noteq> [] \<Longrightarrow> hd d \<noteq> CHR ''.''"
    unfolding d_def using dot by (metis hd_in_set set_dropWhileD)
  show "match_title t y \<noteq> None"
    using st sp nodot
    by (cases d) (auto simp: match_title_def startsWith_iff dr Let_def)
qed

lemma match_title_shorter:
  assumes "match_title t y = Some r" and "t \<noteq> []"
  shows "length r < length y"
proof -
  from assms(1) have st: "take (length t) y = t"
    by (auto simp: match_title_def startsWith_iff split: if_splits)
  then have "length (take (length t) y) = length t"
    by simp
  then have "length t \<le> length y"
    by simp
  with assms(2) have len: "length t \<le> length y" "0 < length t"
    by simp_all
  from assms(1) obtain k where k: "length t \<le> k" and r: "r = [] \<or> r = dropWhile is_space (drop k y)"
  proof -
    let ?r = "drop (length t) y"
    from assms(1) have "r = [] \<or> r = dropWhile is_space ?r \<or> r = dropWhile is_space (tl ?r)"
      by (auto simp: match_title_def Let_def split: if_splits list.splits)
    moreover have "tl ?r = drop (Suc (length t)) y" by (simp add: drop_Suc tl_drop)
    ultimately have "r = [] \<or> r = dropWhile is_space (drop (length t) y) \<or>
        r = dropWhile is_space (drop (Suc (length t)) y)" by simp
    then show ?thesis using that by (metis le_refl le_SucI)
  qed
  have d: "length (dropWhile is_space (drop k y)) \<le> length y - k"
    by (metis length_dropWhile_le length_drop)
  show ?thesis
  proof (cases "r = []")
    case True
    have "length r = 0" using True by simp
    with len show ?thesis by arith
  next
    case False
    with r have "length r = length (dropWhile is_space (drop k y))" by simp
    with d k len show ?thesis by arith
  qed
qed

lemma remove_title_id_iff:
  assumes "\<forall>t \<in> set ts. t \<noteq> []"
  shows "remove_title ts y = y \<longleftrightarrow> (\<forall>t \<in> set ts. match_title t y = None)"
  using assms
proof (induction ts)
  case Nil
  then show ?case by simp
next
  case (Cons t ts)
  show ?case
  proof (cases "match_title t y")
    case None
    with Cons show ?thesis by simp
  next
    case (Some r)
    then have "length r < length y"
      using Cons.prems by (intro match_title_shorter [of t]) simp_all
    then have "r \<noteq> y" by auto
    with Some show ?thesis by simp
  qed
qed

lemma titles_plain: "\<forall>t \<in> set titles. t \<noteq> [] \<and> (\<forall>c \<in> set t. \<not> is_space c)"
  by (simp add: titles_def is_space_def)

lemma normal_form_no_dot: "normal_form y \<Longrightarrow> CHR ''.'' \<notin> set y"
  by (auto simp: normal_form_def is_az_def)

lemma remove_title_fixed_iff:
  assumes "normal_form y"
  shows "remove_title titles y = y \<longleftrightarrow> hd (split_ws y) \<notin> set titles"
proof -
  have "remove_title titles y = y \<longleftrightarrow> (\<forall>t \<in> set titles. match_title t y = None)"
    using titles_plain by (intro remove_title_id_iff) simp
  also have "\<dots> \<longleftrightarrow> (\<forall>t \<in> set titles. takeWhile (\<lambda>c. \<not> is_space c) y \<noteq> t)"
    using match_title_iff [OF normal_form_no_dot [OF assms]] titles_plain by blast
  also have "\<dots> \<longleftrightarrow> hd (split_ws y) \<notin> set titles"
    by (auto simp: hd_split_ws)
  finally show ?thesis .
qed

text \<open>
  C2, as the code has it. The title is stripped once per call, so normalizing a
  normalized name strips one more leading title and does nothing else. Normalization is
  therefore idempotent at \<open>x\<close> exactly when the first token of the normalized \<open>x\<close> is
  not one of the titles \<open>dr\<close>, \<open>mr\<close>, \<open>ms\<close>, \<open>mrs\<close>, \<open>syed\<close>, \<open>s\<close>.
\<close>

theorem normalize_twice:
  "normalize_name (normalize_name x) = remove_title titles (normalize_name x) \<and>
   (normalize_name (normalize_name x) = normalize_name x \<longleftrightarrow>
      hd (split_ws (normalize_name x)) \<notin> set titles)"
  using normal_form_normalize_name [of x]
  by (simp add: normalize_name_normal_form remove_title_fixed_iff)

text \<open>
  \<open>Dr. Ayesha Khan5\<close> normalizes to \<open>ayesha khan\<close>, a fixed point; \<open>Dr. Syed Ali Raza\<close>
  normalizes to \<open>syed ali raza\<close>, which starts with a title again.
\<close>

theorem normalize_twice_witness:
  "hd (split_ws (normalize_name ''Dr. Ayesha Khan5'')) \<notin> set titles \<and>
   normalize_name (normalize_name ''Dr. Ayesha Khan5'') = normalize_name ''Dr. Ayesha Khan5'' \<and>
   hd (split_ws (normalize_name ''Dr. Syed Ali Raza'')) \<in> set titles \<and>
   normalize_name (normalize_name ''Dr. Syed Ali Raza'') \<noteq> normalize_name ''Dr. Syed Ali Raza''"
proof -
  have a: "hd (split_ws (normalize_name ''Dr. Ayesha Khan5'')) \<notin> set titles"
    by code_simp
  have b: "hd (split_ws (normalize_name ''Dr. Syed Ali Raza'')) \<in> set titles"
    by code_simp
  from a b normalize_twice [of "''Dr. Ayesha Khan5''"] normalize_twice [of "''Dr. Syed Ali Raza''"]
  show ?thesis by blast
qed

text \<open>
  C2 as stated fails: the second normalization of \<open>Dr. Syed Ali Raza\<close> removes \<open>syed\<close>.
\<close>

theorem normalize_not_idempotent_counterexample:
  "normalize_name ''Dr. Syed Ali Raza'' = ''syed ali raza'' \<and>
   normalize_name (normalize_name ''Dr. Syed Ali Raza'') = ''ali raza''"
  by code_simp

section \<open>Properties of the resilient loader\<close>

lemma fetchWithRetry_last:
  "fetchWithRetry net n 0 b =
     (case attempt (net n) of Inr d \<Rightarrow> (Inr d, [Fetch]) | Inl e \<Rightarrow> (Inl e, [Fetch]))"
  by (subst fetchWithRetry.simps) (cases "attempt (net n)"; simp)

lemma fetchWithRetry_again:
  "fetchWithRetry net n (Suc r) b =
     (case attempt (net n) of
        Inr d \<Rightarrow> (Inr d, [Fetch])
      | Inl e \<Rightarrow> (case fetchWithRetry net (Suc n) r (b * 1.5) of
                   (result, events) \<Rightarrow> (result, Fetch # Sleep b # events)))"
  by (subst fetchWithRetry.simps) (cases "attempt (net n)"; simp)

lemma fetchBootstrap_cases:
  "fetchBootstrap net =
     (case attempt (net 0) of
        Inr d \<Rightarrow> (Inr d, [Fetch])
      | Inl e0 \<Rightarrow>
     (case attempt (net 1) of
        Inr d \<Rightarrow> (Inr d, [Fetch, Sleep 1000, Fetch])
      | Inl e1 \<Rightarrow>
     (case attempt (net 2) of
        Inr d \<Rightarrow> (Inr d, [Fetch, Sleep 1000, Fetch, Sleep 1500, Fetch])
      | Inl e2 \<Rightarrow>
     (case attempt (net 3) of
        Inr d \<Rightarrow> (Inr d, [Fetch, Sleep 1000, Fetch, Sleep 1500, Fetch, Sleep 2250, Fetch])
      | Inl e3 \<Rightarrow> (Inl e3, [Fetch, Sleep 1000, Fetch, Sleep 1500, Fetch, Sleep 2250, Fetch])))))"
  by (simp add: fetchBootstrap_def eval_nat_numeral fetchWithRetry_last fetchWithRetry_again
      split: sum.split)

text \<open>
  C5. Retry discipline of the bootstrap load, whatever the network does. There are at
  most four requests, one after the other: the effects are a request, then for each
  retry a sleep and a request, with the sleeps 1000, 1500 and 2250 milliseconds in that
  order. A load whose first two requests fail and whose third succeeds sleeps 1000 and
  then 1500 milliseconds and returns the parsed payload. The load fails exactly when all
  four requests fail; it then fails with the error of the fourth, after all three sleeps.
\<close>

theorem retry_discipline:
  "length (filter (\<lambda>e. e = Fetch) (snd (fetchBootstrap net))) \<le> 4 \<and>
   snd (fetchBootstrap net) \<in> set
     [[Fetch],
      [Fetch, Sleep 1000, Fetch],
      [Fetch, Sleep 1000, Fetch, Sleep 1500, Fetch],
      [Fetch, Sleep 1000, Fetch, Sleep 1500, Fetch, Sleep 2250, Fetch]] \<and>
   (isl (attempt (net 0)) \<and> isl (attempt (net 1)) \<and> attempt (net 2) = Inr payload \<longrightarrow>
      fetchBootstrap net = (Inr payload, [Fetch, Sleep 1000, Fetch, Sleep 1500, Fetch])) \<and>
   (fst (fetchBootstrap net) = Inl err \<longleftrightarrow>
      isl (attempt (net 0)) \<and> isl (attempt (net 1)) \<and> isl (attempt (net 2)) \<and>
      attempt (net 3) = Inl err) \<and>
   (isl (fst (fetchBootstrap net)) \<longrightarrow>
      snd (fetchBootstrap net) =
        [Fetch, Sleep 1000, Fetch, Sleep 1500, Fetch, Sleep 2250, Fetch])"
  by (simp add: fetchBootstrap_cases split: sum.split)

text \<open>
  The recovering network gives the payload at the third request; the unavailable one
  makes the load fail with the status error of the fourth request, not with the refused
  connections before it.
\<close>

theorem retry_discipline_witness:
  "fetchBootstrap recovering_network =
     (Inr bootstrap_payload, [Fetch, Sleep 1000, Fetch, Sleep 1500, Fetch]) \<and>
   fetchBootstrap unavailable_network =
     (Inl (BadStatus 503), [Fetch, Sleep 1000, Fetch, Sleep 1500, Fetch, Sleep 2250, Fetch])"
proof -
  have r: "isl (attempt (recovering_network 0))" "isl (attempt (recovering_network 1))"
    "attempt (recovering_network 2) = Inr bootstrap_payload"
    by (simp_all add: recovering_network_def ok_def)
  have u: "isl (attempt (unavailable_network 0))" "isl (attempt (unavailable_network 1))"
    "isl (attempt (unavailable_network 2))"
    "attempt (unavailable_network 3) = Inl (BadStatus 503)"
    by (simp_all add: unavailable_network_def ok_def)
  note a = retry_discipline [of recovering_network bootstrap_payload "BadStatus 503"]
  note b = retry_discipline [of unavailable_network bootstrap_payload "BadStatus 503"]
  from a r have 1: "fetchBootstrap recovering_network =
      (Inr bootstrap_payload, [Fetch, Sleep 1000, Fetch, Sleep 1500, Fetch])"
    by blast
  from b u have 2: "fst (fetchBootstrap unavailable_network) = Inl (BadStatus 503)"
    by blast
  then have "isl (fst (fetchBootstrap unavailable_network))"
    by simp
  with b have 3: "snd (fetchBootstrap unavailable_network) =
      [Fetch, Sleep 1000, Fetch, Sleep 1500, Fetch, Sleep 2250, Fetch]"
    by blast
  from 2 3 have "fetchBootstrap unavailable_network =
      (Inl (BadStatus 503), [Fetch, Sleep 1000, Fetch, Sleep 1500, Fetch, Sleep 2250, Fetch])"
    by (simp add: prod_eq_iff)
  with 1 show ?thesis by (intro conjI)
qed

section \<open>Properties of the result cache\<close>

text \<open>
  C6. Self-heal. When the cache item is there (a non-empty text) and \<^verbatim>\<open>JSON.parse\<close> throws
  on it, loading removes the item and changes nothing else: the schedule stays as it was
  (\<^verbatim>\<open>null\<close> at mount, so nothing is loaded), the error message of the page is untouched,
  and no exception leaves the code. Loading again finds no item and does nothing.
\<close>

theorem cache_self_heal:
  assumes "cache_item p = Some cached" and "cached \<noteq> []" and "parse cached = None"
  shows "load_cached_schedule parse p = p\<lparr>cache_item := None\<rparr> \<and>
         cache_item (load_cached_schedule parse p) = None \<and>
         schedule (load_cached_schedule parse p) = schedule p \<and>
         error (load_cached_schedule parse p) = error p \<and>
         load_cached_schedule parse (load_cached_schedule parse p) = load_cached_schedule parse p"
  using assms by (simp add: load_cached_schedule_def)

text \<open>The text \<^verbatim>\<open>{bad\<close> in the cache item of a freshly mounted page.\<close>

theorem cache_self_heal_witness:
  "literal_parse ''{bad'' = None \<and>
   load_cached_schedule literal_parse (initial_page (Some ''{bad'')) = initial_page None \<and>
   schedule (load_cached_schedule literal_parse (initial_page (Some ''{bad''))) = JNull \<and>
   error (load_cached_schedule literal_parse (initial_page (Some ''{bad''))) = [] \<and>
   load_cached_schedule literal_parse (initial_page None) = initial_page None"
proof -
  have a: "literal_parse ''{bad'' = None"
    by (simp add: literal_parse_def)
  have b: "cache_item (initial_page (Some ''{bad'')) = Some ''{bad''"
    by (simp add: initial_page_def)
  have c: "''{bad'' \<noteq> []"
    by simp
  have d: "(initial_page (Some ''{bad''))\<lparr>cache_item := None\<rparr> = initial_page None"
    by (simp add: initial_page_def)
  have e: "schedule (initial_page (Some ''{bad'')) = JNull" "error (initial_page (Some ''{bad'')) = []"
    by (simp_all add: initial_page_def)
  note h = cache_self_heal [where p = "initial_page (Some ''{bad'')" and cached = "''{bad''"
      and parse = literal_parse, OF b c a]
  have 1: "load_cached_schedule literal_parse (initial_page (Some ''{bad'')) = initial_page None"
    using h [THEN conjunct1] d by (rule trans)
  have 2: "schedule (load_cached_schedule literal_parse (initial_page (Some ''{bad''))) = JNull"
    using h [THEN conjunct2, THEN conjunct2, THEN conjunct1] e(1) by (rule trans)
  have 3: "error (load_cached_schedule literal_parse (initial_page (Some ''{bad''))) = []"
    using h [THEN conjunct2, THEN conjunct2, THEN conjunct2, THEN conjunct1] e(2) by (rule trans)
  have 4: "load_cached_schedule literal_parse (initial_page None) = initial_page None"
    using h [THEN conjunct2, THEN conjunct2, THEN conjunct2, THEN conjunct2] unfolding 1 .
  from a 1 2 3 4 show ?thesis
    by (intro conjI)
qed

section \<open>Properties of the sync orchestrator\<close>

text \<open>
  C9, as the code has it. A 401 answer to the submission sets \<^verbatim>\<open>auth_needed\<close>. For any other
  status the body is parsed before the status is looked at: with a JSON body, a status
  of 200 .. 299 sets \<^verbatim>\<open>success\<close> and any other status sets \<^verbatim>\<open>error:\<close> followed by the
  \<^verbatim>\<open>detail\<close> of the body; with a body that is not JSON the status set is \<^verbatim>\<open>error:\<close> followed
  by the parser's message, whatever the status. Nothing follows the status set.
\<close>

theorem submission_outcomes:
  "performSync (Response 401 body) sched = [PostSync sched, SetSyncStatus ''auth_needed''] \<and>
   (status \<noteq> 401 \<and> ok status \<longrightarrow>
      performSync (Response status (Inr data)) sched =
        [PostSync sched, SetSyncStatus ''success'']) \<and>
   (status \<noteq> 401 \<and> \<not> ok status \<longrightarrow>
      performSync (Response status (Inr data)) sched =
        [PostSync sched, SetSyncStatus (''error:'' @ interpolate (detail data))]) \<and>
   (status \<noteq> 401 \<longrightarrow>
      performSync (Response status (Inl m)) sched =
        [PostSync sched, SetSyncStatus (''error:'' @ m)])"
  by (simp add: performSync_def)

text \<open>A 401, a 200 and a 500 with JSON bodies, and the HTML page of a 502.\<close>

theorem submission_outcomes_witness:
  "performSync (Response 401 (Inr \<lparr>detail = Some ''Not authenticated''\<rparr>)) sample_schedule =
     [PostSync sample_schedule, SetSyncStatus ''auth_needed''] \<and>
   performSync (Response 200 (Inr \<lparr>detail = None\<rparr>)) sample_schedule =
     [PostSync sample_schedule, SetSyncStatus ''success''] \<and>
   performSync (Response 500 (Inr \<lparr>detail = Some ''Calendar API error''\<rparr>)) sample_schedule =
     [PostSync sample_schedule, SetSyncStatus ''error:Calendar API error''] \<and>
   performSync (Response 502 (Inl ''Unexpected token <'')) sample_schedule =
     [PostSync sample_schedule, SetSyncStatus ''error:Unexpected token <'']"
proof -
  have "(200::nat) \<noteq> 401" "ok 200" "(500::nat) \<noteq> 401" "\<not> ok 500" "(502::nat) \<noteq> 401"
    by (simp_all add: ok_def)
  with
    submission_outcomes [of "Inr \<lparr>detail = Some ''Not authenticated''\<rparr>" sample_schedule 200
      "\<lparr>detail = None\<rparr>" "''x''"]
    submission_outcomes [of "Inr \<lparr>detail = None\<rparr>" sample_schedule 500
      "\<lparr>detail = Some ''Calendar API error''\<rparr>" "''x''"]
    submission_outcomes [of "Inr \<lparr>detail = None\<rparr>" sample_schedule 502
      "\<lparr>detail = None\<rparr>" "''Unexpected token <''"]
  show ?thesis by simp
qed

text \<open>
  C9 as stated fails: a success response (status 200) with an empty body does not give
  \<^verbatim>\<open>success\<close>; \<^verbatim>\<open>res.json()\<close> rejects and the status set is an error.
\<close>

theorem success_needs_json_counterexample:
  "ok 200 \<and>
   performSync (Response 200 (Inl ''Unexpected end of JSON input'')) sample_schedule =
     [PostSync sample_schedule, SetSyncStatus ''error:Unexpected end of JSON input'']"
  by (simp add: performSync_def ok_def)

text \<open>
  C7. Popup blocked. The schedule is there, the status check succeeds and reports no
  error, not authenticated, and an authorization URL; \<^verbatim>\<open>window.open\<close> gives no window.
  Then the session is: status \<^verbatim>\<open>syncing\<close>, the status request, the attempt to open the
  window, status \<^verbatim>\<open>popup_blocked\<close>. No request follows the attempt, and no timer is set.
\<close>

theorem popup_blocked:
  assumes "truthy sched"
    and "auth_reply w = Response status (Inr data)" and "ok status"
    and "\<not> present (auth_error data)"
    and "\<not> authenticated data" and "present (url data)"
    and "\<not> popup_opens w"
  shows "handleSync w sched =
           Some [SetSyncStatus ''syncing'', GetAuthUrl, WindowOpen (interpolate (url data)),
                 SetSyncStatus ''popup_blocked'']"
  using assms by (simp add: handleSync_def)

text \<open>A user who has not consented, in a browser that blocks the window.\<close>

theorem popup_blocked_witness:
  "handleSync blocked_world sample_schedule =
     Some [SetSyncStatus ''syncing'', GetAuthUrl,
           WindowOpen ''https://accounts.google.com/o/oauth2/auth'',
           SetSyncStatus ''popup_blocked'']"
proof -
  have "truthy sample_schedule"
    by (simp add: sample_schedule_def)
  moreover have "auth_reply blocked_world = Response 200 (Inr needs_consent)"
    by (simp add: blocked_world_def)
  moreover have "ok 200"
    by (simp add: ok_def)
  moreover have "\<not> present (auth_error needs_consent)" "\<not> authenticated needs_consent"
    "present (url needs_consent)"
    by (simp_all add: needs_consent_def)
  moreover have "\<not> popup_opens blocked_world"
    by (simp add: blocked_world_def)
  ultimately have "handleSync blocked_world sample_schedule =
      Some [SetSyncStatus ''syncing'', GetAuthUrl, WindowOpen (interpolate (url needs_consent)),
            SetSyncStatus ''popup_blocked'']"
    by (rule popup_blocked)
  then show ?thesis
    by (simp add: needs_consent_def)
qed

text \<open>
  C10. No authorization URL. The schedule is there, the status check succeeds and
  reports no error, not authenticated, and no URL. Then no window is opened and no
  failure is set: the session goes on to \<^verbatim>\<open>performSync\<close>, which submits the schedule and
  sets one final status.
\<close>

theorem no_url_submits:
  assumes "truthy sched"
    and "auth_reply w = Response status (Inr data)" and "ok status"
    and "\<not> present (auth_error data)"
    and "\<not> authenticated data" and "\<not> present (url data)"
  shows "handleSync w sched =
           Some ([SetSyncStatus ''syncing'', GetAuthUrl] @ performSync (sync_reply w) sched) \<and>
         (\<exists>outcome. handleSync w sched =
           Some [SetSyncStatus ''syncing'', GetAuthUrl, PostSync sched, SetSyncStatus outcome])"
  using assms by (simp add: handleSync_def performSync_def split: fetched.split sum.split)

text \<open>Without a URL the schedule is submitted at once; here the backend answers 401.\<close>

theorem no_url_submits_witness:
  "handleSync no_url_world sample_schedule =
     Some [SetSyncStatus ''syncing'', GetAuthUrl, PostSync sample_schedule,
           SetSyncStatus ''auth_needed'']"
proof -
  let ?d = "\<lparr>authenticated = False, url = None, auth_error = None\<rparr>"
  have "truthy sample_schedule"
    by (simp add: sample_schedule_def)
  moreover have "auth_reply no_url_world = Response 200 (Inr ?d)"
    by (simp add: no_url_world_def)
  moreover have "ok 200"
    by (simp add: ok_def)
  moreover have "\<not> present (auth_error ?d)" "\<not> authenticated ?d" "\<not> present (url ?d)"
    by simp_all
  ultimately have "handleSync no_url_world sample_schedule =
      Some ([SetSyncStatus ''syncing'', GetAuthUrl] @
            performSync (sync_reply no_url_world) sample_schedule)"
    using no_url_submits by blast
  then show ?thesis
    by (simp add: no_url_world_def performSync_def)
qed

subsection \<open>The poll timer\<close>

lemma ticks_until_closed_first:
  assumes "shut n" and "\<forall>j. k \<le> j \<and> j < n \<longrightarrow> \<not> shut j" and "k \<le> n"
  shows "ticks_until_closed shut k = Some n"
  using assms
proof (induction "n - k" arbitrary: k)
  case 0
  then have "k = n" by simp
  with 0 show ?case by (subst ticks_until_closed.simps) simp
next
  case (Suc d)
  then have "\<not> shut k" "Suc k \<le> n" "d = n - Suc k" by auto
  moreover have "\<forall>j. Suc k \<le> j \<and> j < n \<longrightarrow> \<not> shut j"
    using Suc.prems by auto
  ultimately have "ticks_until_closed shut (Suc k) = Some n"
    using Suc.hyps(1) Suc.prems(1) by blast
  with \<open>\<not> shut k\<close> show ?case by (subst ticks_until_closed.simps) simp
qed

text \<open>
  When the follow-up status request gets a JSON answer, the session does what the
  orchestrator is meant to do at closure: the timer is cleared at the first tick that
  finds the window closed, one status request follows, and then either the schedule is
  submitted or \<^verbatim>\<open>auth_failed\<close> is set.
\<close>

lemma closure_then_report:
  assumes "truthy sched"
    and "auth_reply w = Response status (Inr data)" and "ok status"
    and "\<not> present (auth_error data)"
    and "\<not> authenticated data" and "present (url data)"
    and "popup_opens w"
    and "popup_closed w n" and "\<forall>j<n. \<not> popup_closed w j"
    and "recheck_reply w = Response status' (Inr checkData)"
  shows "handleSync w sched =
           Some ([SetSyncStatus ''syncing'', GetAuthUrl, WindowOpen (interpolate (url data)),
                  SetInterval 1000] @
                 replicate (Suc n) TimerTick @ [ClearInterval, GetAuthUrl] @
                 (if authenticated checkData
                  then SetSyncStatus ''syncing'' # performSync (sync_reply w) sched
                  else [SetSyncStatus ''auth_failed'']))"
proof -
  have "ticks_until_closed (popup_closed w) 0 = Some n"
    using assms(8,9) by (intro ticks_until_closed_first) auto
  with assms show ?thesis
    by (simp add: handleSync_def on_closed_def)
qed

text \<open>
  C8. The closure step has no handler for a failing follow-up request. The user has not
  consented, the window opens and is found closed at the third tick, and the follow-up
  status request is refused (the network is down). The timer is cleared and the one
  follow-up request is made, but then the rejection is handled by nobody: neither the
  submission nor \<^verbatim>\<open>auth_failed\<close> follows, and the page shows \<^verbatim>\<open>syncing\<close> for good.
\<close>

theorem recheck_failure_stalls:
  "handleSync offline_after_consent sample_schedule =
     Some [SetSyncStatus ''syncing'', GetAuthUrl,
           WindowOpen ''https://accounts.google.com/o/oauth2/auth'', SetInterval 1000,
           TimerTick, TimerTick, TimerTick, ClearInterval, GetAuthUrl,
           UnhandledRejection ''Failed to fetch''] \<and>
   syncStatus_after
     [SetSyncStatus ''syncing'', GetAuthUrl,
      WindowOpen ''https://accounts.google.com/o/oauth2/auth'', SetInterval 1000,
      TimerTick, TimerTick, TimerTick, ClearInterval, GetAuthUrl,
      UnhandledRejection ''Failed to fetch''] [] = ''syncing''"
proof -
  have "ticks_until_closed (popup_closed offline_after_consent) 0 = Some 2"
    by (rule ticks_until_closed_first) (auto simp: offline_after_consent_def)
  then show ?thesis
    by (simp add: handleSync_def on_closed_def offline_after_consent_def needs_consent_def
        sample_schedule_def ok_def eval_nat_numeral)
qed

end
